theory Spec2Isabelle
  imports Main
begin

section \<open>Data model\<close>

text \<open>
  The repository holds one serverless handler in two copies, \<^verbatim>\<open>api/visits.js\<close> and
  \<^verbatim>\<open>api/get-visits.js\<close>. The copies differ in \<^verbatim>\<open>fetchJSON\<close> (request headers, text of
  the error message) and in whether the status 200 is set before a summary is sent;
  every such place is a \<open>case\<close> on the variant below, everything else is the same text
  in both files.
\<close>

datatype variant = Visits | GetVisits

text \<open>Instants are milliseconds since the epoch, as \<^verbatim>\<open>Date.now()\<close> returns them.\<close>

type_synonym instant = int

text \<open>
  JavaScript numbers that hold integers: a finite double with an integer value, the two
  infinities, and NaN.
\<close>

datatype number = Fin int | PosInfinity | NegInfinity | NaN

text \<open>
  Upstream JSON, as \<^verbatim>\<open>response.json()\<close> parses it. The body is \<^verbatim>\<open>null\<close> (\<open>JNull\<close>) or a
  value whose \<^verbatim>\<open>data\<close> field is read. The field is falsy (missing, \<^verbatim>\<open>null\<close>,
  \<^verbatim>\<open>false\<close>, 0, the empty string), or truthy and not iterable (an object, a number,
  \<^verbatim>\<open>true\<close>), or a list of elements. An element is \<^verbatim>\<open>null\<close> (\<open>None\<close>) or a value whose
  fields are read: \<^verbatim>\<open>placeVisits\<close> in a games listing, \<^verbatim>\<open>role.name\<close> and
  \<^verbatim>\<open>group.id\<close> in a membership listing; an element that is not an object, and each
  character of a string, reads as an entry without fields.

  \<open>placeVisits\<close> is \<open>None\<close> when the field is missing or \<^verbatim>\<open>null\<close>, and otherwise the
  integer that the JSON text writes: the games API reports whole numbers, and a counter
  that is a fraction, a string or another value is not covered. \<open>role = None\<close> and \<open>membership_group = None\<close> stand for
  a field that is missing or \<^verbatim>\<open>null\<close>; \<open>role_name = None\<close> for a role without a string
  \<^verbatim>\<open>name\<close>. \<open>group_id\<close> is the text that the template literal \<^verbatim>\<open>${groupId}\<close>
  produces; \<^verbatim>\<open>group.name\<close> is only logged and left out.
\<close>

datatype role_json = Role (role_name: "string option")

datatype group_json = Group (group_id: string)

record entry =
  placeVisits :: "int option"
  role :: "role_json option"
  membership_group :: "group_json option"

datatype json_data = Falsy | NotIterable | Items "entry option list"

datatype json_body = JNull | Body json_data

text \<open>
  What \<^verbatim>\<open>fetch\<close> gives back: a rejected promise (network error), or a response with
  its status, status text and body; the body is \<open>None\<close> when \<^verbatim>\<open>response.json()\<close>
  rejects. \<^verbatim>\<open>response.ok\<close> is the status being in 200..299. The upstream answers a
  request (URL and headers) the same way throughout one invocation.
\<close>

datatype http_response = Rejected | Response nat string "json_body option"

type_synonym fetcher = "string \<Rightarrow> (string \<times> string) list \<Rightarrow> http_response"

text \<open>The URLs that have been fetched so far, in the order of the calls.\<close>

type_synonym trace = "string list"

text \<open>
  Thrown values: \<^verbatim>\<open>new Error(text)\<close> of \<^verbatim>\<open>fetchJSON\<close>, the rejections of
  \<^verbatim>\<open>fetch\<close> and of \<^verbatim>\<open>response.json()\<close>, and a \<open>TypeError\<close>, which carries the
  property whose read failed or the variable that is not iterable. The text of
  \<^verbatim>\<open>error.message\<close> is up to the engine: a body that reports it holds the error.
\<close>

datatype js_error = Error string | FetchRejected | InvalidJSON | TypeError string

text \<open>
  The summary that the handler builds. The visit figures are JavaScript numbers; the
  game counts go up by one per loop iteration and are natural numbers here (a double
  counts exactly below \<open>2 ^ 53\<close> iterations).
\<close>

record breakdown =
  personalVisits :: number
  groupVisits :: number
  totalGames :: nat
  personalGames :: nat
  groupGames :: nat

text \<open>
  \<open>timestamp\<close> is the instant that \<^verbatim>\<open>new Date().toISOString()\<close> renders;
  \<open>note_text\<close> is the field \<^verbatim>\<open>note\<close>.
\<close>

record result =
  success :: bool
  totalVisits :: number
  breakdown :: breakdown
  note_text :: string
  timestamp :: instant

text \<open>
  The bodies: none (\<^verbatim>\<open>end()\<close>), \<^verbatim>\<open>{ error, usage? }\<close>, the summary, and
  \<^verbatim>\<open>{ success, error, details, userId }\<close> with the error whose message is reported.
  A body is the object that is handed to \<^verbatim>\<open>res.json\<close>, before it is written as text.
\<close>

datatype body =
    NoBody
  | ErrorBody string "string option"
  | Summary result
  | Failure bool string js_error string

record res =
  statusCode :: nat
  headers :: "(string \<times> string) list"
  sent :: "body option"

text \<open>
  The request: its HTTP verb and the query parameter \<^verbatim>\<open>userId\<close>, \<open>None\<close> when the
  query has none (a parameter given once, so a string).
\<close>

record request =
  req_method :: string
  query_userId :: "string option"

text \<open>
  The module-level \<^verbatim>\<open>Map\<close>: keys in insertion order, each key once. An entry is
  \<^verbatim>\<open>{ data, timestamp }\<close>.
\<close>

record cache_entry =
  cached_data :: result
  cached_timestamp :: instant

type_synonym cache = "(string \<times> cache_entry) list"

text \<open>
  The environment of one invocation: the network, and the three readings of the clock
  (line 56 \<^verbatim>\<open>Date.now()\<close>, line 147 \<^verbatim>\<open>new Date()\<close>, line 153 \<^verbatim>\<open>Date.now()\<close>).
\<close>

record env =
  fetch :: fetcher
  now_lookup :: instant
  now_result :: instant
  now_store :: instant

text \<open>What one invocation leaves behind: the response, the cache, the URLs fetched.\<close>

record outcome =
  response :: res
  cache_after :: cache
  upstream_calls :: trace

section \<open>Numbers\<close>

text \<open>
  The double nearest to an integer, ties to the even significand: an integer of at most
  \<open>2 ^ 53\<close> in magnitude is itself; a larger one keeps its 53 leading bits, rounded; from
  \<open>2 ^ 1024\<close> on the result is an infinity. This is how \<^verbatim>\<open>JSON.parse\<close> reads an
  integer and how \<^verbatim>\<open>+\<close> rounds an exact sum.
\<close>

function bit_length :: "int \<Rightarrow> nat" where
  "bit_length n = (if n \<le> 0 then 0 else Suc (bit_length (n div 2)))"
  by pat_completeness auto
termination
  by (relation "measure nat") auto

declare bit_length.simps [simp del]

definition round_double :: "int \<Rightarrow> number" where
  "round_double x =
     (let m = \<bar>x\<bar> in
      if m \<le> 2 ^ 53 then Fin x
      else
        (let e = bit_length m - 53;
             q = m div 2 ^ e;
             r = m mod 2 ^ e;
             q' = (if 2 * r > 2 ^ e \<or> (2 * r = 2 ^ e \<and> odd q) then q + 1 else q);
             y = q' * 2 ^ e
         in if y \<ge> 2 ^ 1024 then (if x < 0 then NegInfinity else PosInfinity)
            else Fin (if x < 0 then - y else y)))"

text \<open>The operator \<^verbatim>\<open>+\<close> on two numbers.\<close>

fun js_add :: "number \<Rightarrow> number \<Rightarrow> number" where
  "js_add (Fin a) (Fin b) = round_double (a + b)"
| "js_add NaN y = NaN"
| "js_add x NaN = NaN"
| "js_add PosInfinity NegInfinity = NaN"
| "js_add NegInfinity PosInfinity = NaN"
| "js_add PosInfinity y = PosInfinity"
| "js_add x PosInfinity = PosInfinity"
| "js_add NegInfinity y = NegInfinity"
| "js_add x NegInfinity = NegInfinity"

section \<open>Strings\<close>

text \<open>
  Strings are byte strings. \<^verbatim>\<open>toLowerCase\<close> maps A-Z to a-z and keeps every other
  byte; JavaScript also lowercases letters outside ASCII, which are kept as they are
  here. \<^verbatim>\<open>includes\<close> is the search for a contiguous substring.
\<close>

definition toLowerCase_char :: "char \<Rightarrow> char" where
  "toLowerCase_char c =
     (case map_of (zip ''ABCDEFGHIJKLMNOPQRSTUVWXYZ'' ''abcdefghijklmnopqrstuvwxyz'') c of
        None \<Rightarrow> c | Some l \<Rightarrow> l)"

definition toLowerCase :: "string \<Rightarrow> string" where
  "toLowerCase s = map toLowerCase_char s"

fun startsWith :: "string \<Rightarrow> string \<Rightarrow> bool" where
  "startsWith s [] = True"
| "startsWith [] (c # t) = False"
| "startsWith (d # s) (c # t) = (d = c \<and> startsWith s t)"

fun includes_str :: "string \<Rightarrow> string \<Rightarrow> bool" where
  "includes_str [] t = (t = [])"
| "includes_str (c # s) t = (startsWith (c # s) t \<or> includes_str s t)"

definition isDigit :: "char \<Rightarrow> bool" where
  "isDigit c = (c \<in> set ''0123456789'')"

text \<open>The regular expression \<^verbatim>\<open>/^\d+$/\<close>: one or more characters, all of them digits.\<close>

definition test_numeric :: "string \<Rightarrow> bool" where
  "test_numeric s = (s \<noteq> [] \<and> list_all isDigit s)"

fun decimal :: "nat \<Rightarrow> string" where
  "decimal n =
     (if n < 10 then [''0123456789'' ! n]
      else decimal (n div 10) @ [''0123456789'' ! (n mod 10)])"

declare decimal.simps [simp del]

section \<open>The source\<close>

definition DEVELOPER_ROLES :: "string list" where
  "DEVELOPER_ROLES =
     [''developer'', ''builder'', ''scripter'', ''programmer'',
      ''lead developer'', ''co-owner'', ''owner'', ''dev'',
      ''game developer'', ''lead scripter'', ''head developer'']"

definition CACHE_DURATION :: int where
  "CACHE_DURATION = 5 * 60 * 1000"

definition isDeveloperRole :: "string \<Rightarrow> bool" where
  "isDeveloperRole roleName =
     (let lower = toLowerCase roleName
      in list_ex (\<lambda>role. includes_str lower role) DEVELOPER_ROLES)"

definition request_headers :: "variant \<Rightarrow> (string \<times> string) list" where
  "request_headers v =
     (case v of
        Visits \<Rightarrow>
          [(''User-Agent'',
            ''Mozilla/5.0 (Windows NT 10.0; Win64; x64) AppleWebKit/537.36 (KHTML, like Gecko) Chrome/120.0.0.0 Safari/537.36'')]
      | GetVisits \<Rightarrow> [])"

text \<open>
  The call \<^verbatim>\<open>fetch(url, ...)\<close>: the request goes out, which the trace records, and the
  upstream answers. Every fetch of the handler goes through this call.
\<close>

definition fetch_call ::
  "fetcher \<Rightarrow> string \<Rightarrow> (string \<times> string) list \<Rightarrow> trace \<Rightarrow> trace \<times> http_response" where
  "fetch_call f url hdrs calls = (calls @ [url], f url hdrs)"

type_synonym fetch_json = "string \<Rightarrow> trace \<Rightarrow> trace \<times> (js_error + json_body)"

definition fetchJSON :: "variant \<Rightarrow> fetcher \<Rightarrow> fetch_json" where
  "fetchJSON v f url calls =
     (case fetch_call f url (request_headers v) calls of
        (calls', Rejected) \<Rightarrow> (calls', Inl FetchRejected)
      | (calls', Response status statusText js) \<Rightarrow>
          if \<not> (200 \<le> status \<and> status \<le> 299) then
            (calls', Inl (Error (case v of
                   Visits \<Rightarrow> ''HTTP '' @ decimal status
                 | GetVisits \<Rightarrow> ''HTTP '' @ decimal status @ '': '' @ statusText)))
          else (case js of None \<Rightarrow> (calls', Inl InvalidJSON) | Some b \<Rightarrow> (calls', Inr b)))"

text \<open>
  \<^verbatim>\<open>x.data || []\<close>: a falsy field gives the empty list. \<^verbatim>\<open>game.placeVisits || 0\<close>: the
  counter as \<^verbatim>\<open>JSON.parse\<close> read it, and 0 when it is missing or zero.
\<close>

definition or_empty :: "json_data \<Rightarrow> json_data" where
  "or_empty d = (case d of Falsy \<Rightarrow> Items [] | NotIterable \<Rightarrow> NotIterable | Items xs \<Rightarrow> Items xs)"

definition or_zero :: "int option \<Rightarrow> number" where
  "or_zero p =
     (case p of
        None \<Rightarrow> Fin 0
      | Some n \<Rightarrow> if round_double n = Fin 0 then Fin 0 else round_double n)"

text \<open>
  The loop over a games listing (lines 79-83 for the user's games, lines 121-125 for a
  group's games): add the visits, count the entry. The loop runs inside a \<^verbatim>\<open>try\<close>
  whose \<^verbatim>\<open>catch\<close> only logs: reading \<^verbatim>\<open>placeVisits\<close> of a \<^verbatim>\<open>null\<close> element throws,
  the loop ends there and the counters keep what was added before.
\<close>

fun sum_games :: "entry option list \<Rightarrow> number \<times> nat \<Rightarrow> number \<times> nat" where
  "sum_games [] (visits, count) = (visits, count)"
| "sum_games (None # games) (visits, count) = (visits, count)"
| "sum_games (Some game # games) (visits, count) =
     sum_games games (js_add visits (or_zero (placeVisits game)), count + 1)"

text \<open>
  Lines 76-83 and 118-125, from the parsed body on, all inside the \<^verbatim>\<open>try\<close>: reading
  \<^verbatim>\<open>data\<close> of a \<^verbatim>\<open>null\<close> body throws, and so does \<^verbatim>\<open>for ... of\<close> over a value that
  is not iterable; both leave the counters as they are.
\<close>

definition add_games :: "json_body \<Rightarrow> number \<times> nat \<Rightarrow> number \<times> nat" where
  "add_games gamesData counters =
     (case gamesData of
        JNull \<Rightarrow> counters
      | Body d \<Rightarrow>
          (case or_empty d of
             Items games \<Rightarrow> sum_games games counters
           | NotIterable \<Rightarrow> counters
           | Falsy \<Rightarrow> counters))"

definition user_games_url :: "string \<Rightarrow> string" where
  "user_games_url userId =
     ''https://games.roblox.com/v2/users/'' @ userId @
     ''/games?accessFilter=2&limit=50&sortOrder=Desc''"

definition user_groups_url :: "string \<Rightarrow> string" where
  "user_groups_url userId =
     ''https://groups.roblox.com/v2/users/'' @ userId @ ''/groups/roles''"

definition group_games_url :: "string \<Rightarrow> string" where
  "group_games_url gid =
     ''https://games.roblox.com/v2/groups/'' @ gid @
     ''/games?accessFilter=1&limit=50&sortOrder=Desc''"

text \<open>
  Lines 71-86: the user's games. A throw of \<^verbatim>\<open>fetchJSON\<close> is caught and leaves the
  counters at 0.
\<close>

definition personal_games :: "fetch_json \<Rightarrow> string \<Rightarrow> trace \<Rightarrow> trace \<times> (number \<times> nat)" where
  "personal_games fj userId calls =
     (case fj (user_games_url userId) calls of
        (calls', Inl err) \<Rightarrow> (calls', (Fin 0, 0))
      | (calls', Inr userGamesData) \<Rightarrow> (calls', add_games userGamesData (Fin 0, 0)))"

text \<open>
  Lines 89-98: the memberships. A throw of \<^verbatim>\<open>fetchJSON\<close>, or of reading \<^verbatim>\<open>data\<close> of
  a \<^verbatim>\<open>null\<close> body, is caught and leaves \<^verbatim>\<open>groups = []\<close>; a truthy \<^verbatim>\<open>data\<close> is
  assigned whatever it is.
\<close>

definition group_memberships :: "fetch_json \<Rightarrow> string \<Rightarrow> trace \<Rightarrow> trace \<times> json_data" where
  "group_memberships fj userId calls =
     (case fj (user_groups_url userId) calls of
        (calls', Inl err) \<Rightarrow> (calls', Items [])
      | (calls', Inr groupsData) \<Rightarrow>
          (case groupsData of
             JNull \<Rightarrow> (calls', Items [])
           | Body d \<Rightarrow> (calls', or_empty d)))"

text \<open>
  Lines 101-129: the body of the loop over the memberships, with the counters and the
  trace. Reading \<^verbatim>\<open>groupData.role\<close> of a \<^verbatim>\<open>null\<close> element, \<^verbatim>\<open>role.name\<close>,
  \<^verbatim>\<open>roleName.toLowerCase()\<close> and \<^verbatim>\<open>group.id\<close> is outside the inner \<^verbatim>\<open>try\<close>: a
  \<open>TypeError\<close> there leaves the loop. A throw of \<^verbatim>\<open>fetchJSON\<close> is caught and the loop
  goes on.
\<close>

fun group_loop ::
  "fetch_json \<Rightarrow> entry option list \<Rightarrow> number \<times> nat \<Rightarrow> trace
     \<Rightarrow> trace \<times> (js_error + number \<times> nat)" where
  "group_loop fj [] counters calls = (calls, Inr counters)"
| "group_loop fj (None # groups) counters calls = (calls, Inl (TypeError ''role''))"
| "group_loop fj (Some groupData # groups) counters calls =
     (case role groupData of
        None \<Rightarrow> (calls, Inl (TypeError ''name''))
      | Some r \<Rightarrow>
          (case role_name r of
             None \<Rightarrow> (calls, Inl (TypeError ''toLowerCase''))
           | Some roleName \<Rightarrow>
               if \<not> isDeveloperRole roleName then group_loop fj groups counters calls
               else
                 (case membership_group groupData of
                    None \<Rightarrow> (calls, Inl (TypeError ''id''))
                  | Some g \<Rightarrow>
                      (case fj (group_games_url (group_id g)) calls of
                         (calls', Inl err) \<Rightarrow> group_loop fj groups counters calls'
                       | (calls', Inr groupGamesData) \<Rightarrow>
                           group_loop fj groups (add_games groupGamesData counters) calls'))))"

text \<open>Line 101: \<^verbatim>\<open>for (const groupData of groups)\<close> throws when \<^verbatim>\<open>groups\<close> is not iterable.\<close>

definition for_each_group ::
  "fetch_json \<Rightarrow> json_data \<Rightarrow> number \<times> nat \<Rightarrow> trace \<Rightarrow> trace \<times> (js_error + number \<times> nat)" where
  "for_each_group fj groups counters calls =
     (case groups of
        Items gs \<Rightarrow> group_loop fj gs counters calls
      | NotIterable \<Rightarrow> (calls, Inl (TypeError ''groups is not iterable''))
      | Falsy \<Rightarrow> (calls, Inl (TypeError ''groups is not iterable'')))"

text \<open>
  Lines 62-129, the body of the outer \<^verbatim>\<open>try\<close> up to the totals: the URLs fetched, and
  either the error that escaped or the four counters
  (personalVisits, personalGameCount) and (groupVisits, groupGameCount).
\<close>

definition aggregate ::
  "fetch_json \<Rightarrow> string \<Rightarrow> trace \<times> (js_error + (number \<times> nat) \<times> (number \<times> nat))" where
  "aggregate fj userId =
     (case personal_games fj userId [] of
        (calls1, personal) \<Rightarrow>
          (case group_memberships fj userId calls1 of
             (calls2, groups) \<Rightarrow>
               (case for_each_group fj groups (Fin 0, 0) calls2 of
                  (calls3, Inl err) \<Rightarrow> (calls3, Inl err)
                | (calls3, Inr grp) \<Rightarrow> (calls3, Inr (personal, grp)))))"

subsection \<open>The cache\<close>

definition map_get :: "cache \<Rightarrow> string \<Rightarrow> cache_entry option" where
  "map_get m k = map_of m k"

text \<open>\<^verbatim>\<open>Map.prototype.set\<close>: a key that is present keeps its place, a new key goes last.\<close>

fun map_set :: "cache \<Rightarrow> string \<Rightarrow> cache_entry \<Rightarrow> cache" where
  "map_set [] k v = [(k, v)]"
| "map_set ((k', v') # m) k v =
     (if k' = k then (k, v) # m else (k', v') # map_set m k v)"

definition map_delete :: "cache \<Rightarrow> string \<Rightarrow> cache" where
  "map_delete m k = filter (\<lambda>(k', v'). k' \<noteq> k) m"

definition map_size :: "cache \<Rightarrow> nat" where
  "map_size m = length m"

text \<open>Lines 157-160: drop the first key of the iteration order when over 100 entries.\<close>

definition clean_old :: "cache \<Rightarrow> cache" where
  "clean_old m =
     (if map_size m > 100 then
        (case m of [] \<Rightarrow> m | (firstKey, v) # rest \<Rightarrow> map_delete m firstKey)
      else m)"

subsection \<open>The handler\<close>

text \<open>The response object: \<^verbatim>\<open>setHeader\<close>, \<^verbatim>\<open>status\<close>, \<^verbatim>\<open>json\<close> and \<^verbatim>\<open>end\<close>.\<close>

definition setHeader :: "string \<Rightarrow> string \<Rightarrow> res \<Rightarrow> res" where
  "setHeader k v r = r\<lparr>headers := filter (\<lambda>(k', v'). k' \<noteq> k) (headers r) @ [(k, v)]\<rparr>"

definition status :: "nat \<Rightarrow> res \<Rightarrow> res" where
  "status n r = r\<lparr>statusCode := n\<rparr>"

definition json :: "body \<Rightarrow> res \<Rightarrow> res" where
  "json b r = r\<lparr>sent := Some b\<rparr>"

definition end_res :: "res \<Rightarrow> res" where
  "end_res r = r\<lparr>sent := Some NoBody\<rparr>"

text \<open>The response object as the platform hands it over: status 200, nothing sent.\<close>

definition fresh_res :: res where
  "fresh_res = \<lparr>statusCode = 200, headers = [], sent = None\<rparr>"

definition cors :: "res \<Rightarrow> res" where
  "cors r =
     setHeader ''Access-Control-Allow-Headers'' ''Content-Type''
       (setHeader ''Access-Control-Allow-Methods'' ''GET, OPTIONS''
          (setHeader ''Access-Control-Allow-Origin'' ''*'' r))"

definition make_result :: "(number \<times> nat) \<times> (number \<times> nat) \<Rightarrow> instant \<Rightarrow> result" where
  "make_result counters now =
     (case counters of ((personalVisits', personalGameCount), (groupVisits', groupGameCount)) \<Rightarrow>
        let totalVisits' = js_add personalVisits' groupVisits';
            totalGames' = personalGameCount + groupGameCount
        in \<lparr>success = True,
            totalVisits = totalVisits',
            breakdown = \<lparr>personalVisits = personalVisits',
                         groupVisits = groupVisits',
                         totalGames = totalGames',
                         personalGames = personalGameCount,
                         groupGames = groupGameCount\<rparr>,
            note_text = ''Using placeVisits from games API. For exact universe visits, add Roblox Cloud API key.'',
            timestamp = now\<rparr>)"

definition handler :: "variant \<Rightarrow> env \<Rightarrow> request \<Rightarrow> cache \<Rightarrow> outcome" where
  "handler v e req cache =
     (let res0 = cors fresh_res in
      if req_method req = ''OPTIONS'' then
        \<lparr>response = end_res (status 200 res0), cache_after = cache, upstream_calls = []\<rparr>
      else
        (case query_userId req of
           None \<Rightarrow>
             \<lparr>response = json (ErrorBody ''Missing userId parameter''
                                 (Some ''GET /api/get-visits?userId=123456''))
                            (status 400 res0),
              cache_after = cache, upstream_calls = []\<rparr>
         | Some userId \<Rightarrow>
             if userId = [] then
               \<lparr>response = json (ErrorBody ''Missing userId parameter''
                                   (Some ''GET /api/get-visits?userId=123456''))
                              (status 400 res0),
                cache_after = cache, upstream_calls = []\<rparr>
             else if \<not> test_numeric userId then
               \<lparr>response = json (ErrorBody ''Invalid userId - must be numeric'' None)
                              (status 400 res0),
                cache_after = cache, upstream_calls = []\<rparr>
             else
               (let cacheKey = ''visits_'' @ userId;
                    cached = map_get cache cacheKey
                in
                case (case cached of
                        None \<Rightarrow> None
                      | Some c \<Rightarrow>
                          if now_lookup e - cached_timestamp c < CACHE_DURATION then Some c
                          else None) of
                  Some c \<Rightarrow>
                  \<lparr>response =
                     (case v of
                        Visits \<Rightarrow> json (Summary (cached_data c)) (status 200 res0)
                      | GetVisits \<Rightarrow> json (Summary (cached_data c)) res0),
                   cache_after = cache, upstream_calls = []\<rparr>
                | None \<Rightarrow>
                  (case aggregate (fetchJSON v (fetch e)) userId of
                     (calls, Inl error) \<Rightarrow>
                       \<lparr>response = json (Failure False ''Failed to fetch visit data''
                                           error userId)
                                      (status 500 res0),
                        cache_after = cache, upstream_calls = calls\<rparr>
                   | (calls, Inr counters) \<Rightarrow>
                       (let result = make_result counters (now_result e);
                            cache1 = map_set cache cacheKey
                                       \<lparr>cached_data = result, cached_timestamp = now_store e\<rparr>;
                            cache2 = clean_old cache1
                        in \<lparr>response =
                              (case v of
                                 Visits \<Rightarrow> json (Summary result) (status 200 res0)
                               | GetVisits \<Rightarrow> json (Summary result) res0),
                            cache_after = cache2, upstream_calls = calls\<rparr>)))))"


section \<open>Vocabulary of the properties\<close>

text \<open>
  What a fetch of a URL returns, apart from the trace, and what a games fetch does to
  the counters (visits, games): nothing when it threw, the loop over its listing
  otherwise.
\<close>

definition answer :: "variant \<Rightarrow> fetcher \<Rightarrow> string \<Rightarrow> js_error + json_body" where
  "answer v f url = snd (fetchJSON v f url [])"

definition absorb :: "js_error + json_body \<Rightarrow> number \<times> nat \<Rightarrow> number \<times> nat" where
  "absorb r counters = (case r of Inl err \<Rightarrow> counters | Inr b \<Rightarrow> add_games b counters)"

text \<open>The elements of a list that are not \<^verbatim>\<open>null\<close>.\<close>

fun present :: "entry option list \<Rightarrow> entry list" where
  "present [] = []"
| "present (None # xs) = present xs"
| "present (Some m # xs) = m # present xs"



text \<open>
  A membership is developer-tier when its role name is present and classified so. An
  element of the membership list is well-formed when the loop can pass it: it is not
  \<^verbatim>\<open>null\<close>, the role and its name are present, and the group is present when the role
  is developer-tier. \<open>type_error_of\<close> is the error that an element that is not
  well-formed raises.
\<close>

definition developer_tier :: "entry \<Rightarrow> bool" where
  "developer_tier m =
     (case role m of
        None \<Rightarrow> False
      | Some r \<Rightarrow> (case role_name r of None \<Rightarrow> False | Some n \<Rightarrow> isDeveloperRole n))"

definition well_formed :: "entry option \<Rightarrow> bool" where
  "well_formed x =
     (case x of
        None \<Rightarrow> False
      | Some m \<Rightarrow>
          (case role m of
             None \<Rightarrow> False
           | Some r \<Rightarrow>
               (case role_name r of
                  None \<Rightarrow> False
                | Some n \<Rightarrow> isDeveloperRole n \<longrightarrow> membership_group m \<noteq> None)))"

definition type_error_of :: "entry option \<Rightarrow> js_error" where
  "type_error_of x =
     (case x of
        None \<Rightarrow> TypeError ''role''
      | Some m \<Rightarrow>
          (case role m of
             None \<Rightarrow> TypeError ''name''
           | Some r \<Rightarrow>
               (case role_name r of
                  None \<Rightarrow> TypeError ''toLowerCase''
                | Some n \<Rightarrow> TypeError ''id'')))"

definition games_url_of :: "entry \<Rightarrow> string" where
  "games_url_of m =
     (case membership_group m of None \<Rightarrow> [] | Some g \<Rightarrow> group_games_url (group_id g))"

text \<open>The memberships whose games are fetched: developer-tier, before the first malformed one.\<close>

definition scanned :: "entry option list \<Rightarrow> entry list" where
  "scanned groups = filter developer_tier (present (takeWhile well_formed groups))"

text \<open>
  The value of \<^verbatim>\<open>groups\<close> after lines 89-98, its elements when it is a list, whether
  the loop over it runs to its end, and the error that escapes when it does not.
\<close>

definition groups_of :: "variant \<Rightarrow> fetcher \<Rightarrow> string \<Rightarrow> json_data" where
  "groups_of v f userId = snd (group_memberships (fetchJSON v f) userId [])"

definition entries_of :: "json_data \<Rightarrow> entry option list" where
  "entries_of d = (case d of Items gs \<Rightarrow> gs | NotIterable \<Rightarrow> [] | Falsy \<Rightarrow> [])"

definition scan_ok :: "json_data \<Rightarrow> bool" where
  "scan_ok d = (case d of Items gs \<Rightarrow> list_all well_formed gs | NotIterable \<Rightarrow> False | Falsy \<Rightarrow> False)"

definition fatal_error_of :: "json_data \<Rightarrow> js_error" where
  "fatal_error_of d =
     (case d of
        Items gs \<Rightarrow> type_error_of (hd (dropWhile well_formed gs))
      | NotIterable \<Rightarrow> TypeError ''groups is not iterable''
      | Falsy \<Rightarrow> TypeError ''groups is not iterable'')"

text \<open>
  The group counters after the games fetches of the memberships \<open>ms\<close>, one after the
  other, from the counters given.
\<close>

definition group_total ::
  "(string \<Rightarrow> js_error + json_body) \<Rightarrow> entry list \<Rightarrow> number \<times> nat \<Rightarrow> number \<times> nat" where
  "group_total ans ms counters = foldl (\<lambda>c m. absorb (ans (games_url_of m)) c) counters ms"


text \<open>The cache holds an entry for the user that is younger than five minutes.\<close>

definition fresh :: "env \<Rightarrow> cache \<Rightarrow> string \<Rightarrow> bool" where
  "fresh e cache userId =
     (case map_get cache (''visits_'' @ userId) of
        None \<Rightarrow> False
      | Some c \<Rightarrow> now_lookup e - cached_timestamp c < 300000)"

section \<open>Example inputs\<close>

definition game :: "int option \<Rightarrow> entry" where
  "game p = \<lparr>placeVisits = p, role = None, membership_group = None\<rparr>"

definition membership :: "string \<Rightarrow> string \<Rightarrow> entry" where
  "membership r g =
     \<lparr>placeVisits = None, role = Some (Role (Some r)), membership_group = Some (Group g)\<rparr>"

definition get_request :: "string \<Rightarrow> request" where
  "get_request userId = \<lparr>req_method = ''GET'', query_userId = Some userId\<rparr>"

definition listing :: "entry option list \<Rightarrow> http_response" where
  "listing xs = Response 200 ''OK'' (Some (Body (Items xs)))"

text \<open>
  User 1 owns three games, one without a counter, and is Co-Owner of group 10, Moderator
  of group 11 and LEAD SCRIPTER of group 12; the games of group 12 cannot be fetched.
\<close>

definition demo_fetch :: fetcher where
  "demo_fetch url hdrs =
     (if url = user_games_url ''1'' then
        listing [Some (game (Some 5)), Some (game None), Some (game (Some 7))]
      else if url = user_groups_url ''1'' then
        listing [Some (membership ''Co-Owner'' ''10''), Some (membership ''Moderator'' ''11''),
                 Some (membership ''LEAD SCRIPTER'' ''12'')]
      else if url = group_games_url ''10'' then
        listing [Some (game (Some 100)), Some (game None)]
      else if url = group_games_url ''12'' then
        Response 503 ''Service Unavailable'' None
      else Response 404 ''Not Found'' None)"

definition demo_env :: env where
  "demo_env = \<lparr>fetch = demo_fetch, now_lookup = 1000, now_result = 2000, now_store = 2001\<rparr>"

text \<open>A cache that holds a summary for user 1, stored at instant 600.\<close>

definition sample_entry :: cache_entry where
  "sample_entry =
     \<lparr>cached_data = make_result ((Fin 1, 1), (Fin 2, 1)) 500, cached_timestamp = 600\<rparr>"

definition warm_cache :: cache where
  "warm_cache = [(''visits_1'', sample_entry)]"

text \<open>The same environment read exactly 300,000 ms after the entry was stored.\<close>

definition late_env :: env where
  "late_env = \<lparr>fetch = demo_fetch, now_lookup = 300600, now_result = 300700, now_store = 300701\<rparr>"

text \<open>
  An upstream whose games listing answers 500 and whose membership listing holds an
  entry without a role.
\<close>

definition broken_fetch :: fetcher where
  "broken_fetch url hdrs =
     (if url = user_groups_url ''1'' then
        listing [Some \<lparr>placeVisits = None, role = None, membership_group = Some (Group ''10'')\<rparr>]
      else Response 500 ''Internal Server Error'' None)"

definition broken_env :: env where
  "broken_env =
     \<lparr>fetch = broken_fetch, now_lookup = 300600, now_result = 300700, now_store = 300701\<rparr>"

text \<open>The demo upstream with the user's games unreachable, and with the memberships refused.\<close>

definition no_personal_fetch :: fetcher where
  "no_personal_fetch url hdrs = (if url = user_games_url ''1'' then Rejected else demo_fetch url hdrs)"

definition no_personal_env :: env where
  "no_personal_env =
     \<lparr>fetch = no_personal_fetch, now_lookup = 1000, now_result = 2000, now_store = 2001\<rparr>"

definition no_groups_fetch :: fetcher where
  "no_groups_fetch url hdrs =
     (if url = user_groups_url ''1'' then Response 429 ''Too Many Requests'' None
      else demo_fetch url hdrs)"

definition no_groups_env :: env where
  "no_groups_env =
     \<lparr>fetch = no_groups_fetch, now_lookup = 1000, now_result = 2000, now_store = 2001\<rparr>"

text \<open>
  The demo upstream with 9007199254740992 visits on the user's only game (group 10 then
  adds 100), and with a \<^verbatim>\<open>null\<close> element in the middle of the user's listing.
\<close>

definition big_fetch :: fetcher where
  "big_fetch url hdrs =
     (if url = user_games_url ''1'' then listing [Some (game (Some 9007199254740992))]
      else if url = group_games_url ''10'' then listing [Some (game (Some 1))]
      else demo_fetch url hdrs)"

definition big_env :: env where
  "big_env = \<lparr>fetch = big_fetch, now_lookup = 1000, now_result = 2000, now_store = 2001\<rparr>"

definition null_entry_fetch :: fetcher where
  "null_entry_fetch url hdrs =
     (if url = user_games_url ''1'' then
        listing [Some (game (Some 5)), None, Some (game (Some 7))]
      else demo_fetch url hdrs)"

definition null_entry_env :: env where
  "null_entry_env =
     \<lparr>fetch = null_entry_fetch, now_lookup = 1000, now_result = 2000, now_store = 2001\<rparr>"

text \<open>An upstream that refuses a request that carries no header.\<close>

definition ua_fetch :: fetcher where
  "ua_fetch url hdrs = (if hdrs = [] then Response 403 ''Forbidden'' None else demo_fetch url hdrs)"

definition ua_env :: env where
  "ua_env = \<lparr>fetch = ua_fetch, now_lookup = 1000, now_result = 2000, now_store = 2001\<rparr>"

text \<open>A preflight request, and a cache with 100 entries (users 7, 77, 777, ...).\<close>

definition options_request :: request where
  "options_request = \<lparr>req_method = ''OPTIONS'', query_userId = Some ''abc''\<rparr>"

definition full_cache :: cache where
  "full_cache = map (\<lambda>i. (''visits_'' @ replicate (Suc i) (CHR ''7''), sample_entry)) [0..<100]"

section \<open>Lemmas\<close>

lemmas eval_defs = handler_def aggregate_def personal_games_def group_memberships_def
  for_each_group_def add_games_def fetchJSON_def fetch_call_def request_headers_def
  demo_env_def demo_fetch_def get_request_def listing_def
  user_games_url_def user_groups_url_def group_games_url_def game_def membership_def
  or_empty_def or_zero_def round_double_def test_numeric_def isDigit_def map_get_def
  CACHE_DURATION_def
  isDeveloperRole_def toLowerCase_def toLowerCase_char_def DEVELOPER_ROLES_def
  make_result_def clean_old_def map_size_def map_delete_def cors_def setHeader_def
  status_def json_def end_res_def fresh_res_def Let_def sample_entry_def warm_cache_def late_env_def
  broken_fetch_def broken_env_def ua_fetch_def ua_env_def options_request_def
  no_personal_fetch_def no_personal_env_def no_groups_fetch_def no_groups_env_def
  big_fetch_def big_env_def null_entry_fetch_def null_entry_env_def

subsection \<open>Substring search\<close>

lemma startsWith_iff: "startsWith s t \<longleftrightarrow> (\<exists>q. s = t @ q)"
  by (induction s t rule: startsWith.induct) auto

lemma includes_str_iff: "includes_str s t \<longleftrightarrow> (\<exists>p q. s = p @ t @ q)"
proof (induction s)
  case Nil
  then show ?case by simp
next
  case (Cons c s)
  show ?case
  proof
    assume "includes_str (c # s) t"
    then consider "startsWith (c # s) t" | "includes_str s t" by auto
    then show "\<exists>p q. c # s = p @ t @ q"
    proof cases
      case 1
      then obtain q where "c # s = t @ q" by (auto simp: startsWith_iff)
      then have "c # s = [] @ t @ q" by simp
      then show ?thesis by blast
    next
      case 2
      then obtain p q where "s = p @ t @ q" using Cons.IH by blast
      then have "c # s = (c # p) @ t @ q" by simp
      then show ?thesis by blast
    qed
  next
    assume "\<exists>p q. c # s = p @ t @ q"
    then obtain p q where pq: "c # s = p @ t @ q" by blast
    show "includes_str (c # s) t"
    proof (cases p)
      case Nil
      with pq have "startsWith (c # s) t" by (auto simp: startsWith_iff)
      then show ?thesis by simp
    next
      case (Cons a p')
      with pq have "s = p' @ t @ q" by simp
      then have "includes_str s t" using Cons.IH by blast
      then show ?thesis by simp
    qed
  qed
qed

subsection \<open>Numbers\<close>

lemma round_double_exact: "\<bar>x\<bar> \<le> 2 ^ 53 \<Longrightarrow> round_double x = Fin x"
  by (simp add: round_double_def Let_def)

lemma js_add_exact: "\<bar>a + b\<bar> \<le> 2 ^ 53 \<Longrightarrow> js_add (Fin a) (Fin b) = Fin (a + b)"
  by (simp add: round_double_exact)
















subsection \<open>The aggregation in closed form\<close>

lemma fetchJSON_eq: "fetchJSON v f url calls = (calls @ [url], answer v f url)"
  by (simp add: answer_def fetchJSON_def fetch_call_def split: http_response.splits option.splits)




lemma group_loop_eq:
  "group_loop (fetchJSON v f) groups counters calls =
     (calls @ map games_url_of (scanned groups),
      if list_all well_formed groups then
        Inr (group_total (answer v f) (scanned groups) counters)
      else Inl (type_error_of (hd (dropWhile well_formed groups))))"
proof (induction groups arbitrary: counters calls)
  case Nil
  show ?case by (simp add: scanned_def group_total_def)
next
  case (Cons x xs)
  show ?case
  proof (cases "well_formed x")
    case False
    have sc: "scanned (x # xs) = []"
      using False by (simp add: scanned_def)
    from False show ?thesis
      unfolding sc
      by (cases x) (auto simp: well_formed_def type_error_of_def split: option.splits)
  next
    case wf: True
    then obtain m where x: "x = Some m"
      by (cases x) (auto simp: well_formed_def)
    show ?thesis
    proof (cases "developer_tier m")
      case False
      with wf obtain r n where m: "role m = Some r" "role_name r = Some n" "\<not> isDeveloperRole n"
        by (auto simp: x well_formed_def developer_tier_def split: option.splits)
      have sc: "scanned (Some m # xs) = scanned xs"
        using wf False by (simp add: scanned_def x)
      show ?thesis
        using wf by (simp add: x m Cons.IH sc)
    next
      case True
      with wf obtain r n g where m: "role m = Some r" "role_name r = Some n" "isDeveloperRole n"
        "membership_group m = Some g"
        by (auto simp: x well_formed_def developer_tier_def split: option.splits)
      have u: "games_url_of m = group_games_url (group_id g)"
        by (simp add: games_url_of_def m)
      have sc: "scanned (Some m # xs) = m # scanned xs"
        using wf True by (simp add: scanned_def x)
      have gt: "group_total (answer v f) (m # scanned xs) counters
                  = group_total (answer v f) (scanned xs)
                      (absorb (answer v f (group_games_url (group_id g))) counters)"
        by (simp add: group_total_def u)
      have call: "fetchJSON v f (group_games_url (group_id g)) calls
                    = (calls @ [group_games_url (group_id g)],
                       answer v f (group_games_url (group_id g)))"
        by (rule fetchJSON_eq)
      have step: "group_loop (fetchJSON v f) (Some m # xs) counters calls
                    = group_loop (fetchJSON v f) xs
                        (absorb (answer v f (group_games_url (group_id g))) counters)
                        (calls @ [group_games_url (group_id g)])"
        by (simp add: m call absorb_def split: sum.splits)
      show ?thesis
        using wf unfolding x step by (simp add: Cons.IH sc gt u)
    qed
  qed
qed

lemma personal_games_eq:
  "personal_games (fetchJSON v f) userId calls =
     (calls @ [user_games_url userId], absorb (answer v f (user_games_url userId)) (Fin 0, 0))"
  by (simp add: personal_games_def fetchJSON_eq absorb_def split: sum.splits)

lemma group_memberships_eq:
  "group_memberships (fetchJSON v f) userId calls =
     (calls @ [user_groups_url userId], groups_of v f userId)"
  by (simp add: groups_of_def group_memberships_def fetchJSON_eq
      split: sum.splits json_body.splits)

lemma groups_of_eq:
  "groups_of v f userId =
     (case answer v f (user_groups_url userId) of
        Inl err \<Rightarrow> Items []
      | Inr JNull \<Rightarrow> Items []
      | Inr (Body d) \<Rightarrow> or_empty d)"
  by (simp add: groups_of_def group_memberships_def fetchJSON_eq
      split: sum.splits json_body.splits)

lemma aggregate_eq:
  "aggregate (fetchJSON v f) userId =
     ([user_games_url userId, user_groups_url userId] @
        map games_url_of (scanned (entries_of (groups_of v f userId))),
      if scan_ok (groups_of v f userId) then
        Inr (absorb (answer v f (user_games_url userId)) (Fin 0, 0),
             group_total (answer v f) (scanned (entries_of (groups_of v f userId))) (Fin 0, 0))
      else Inl (fatal_error_of (groups_of v f userId)))"
  by (cases "groups_of v f userId")
    (simp_all add: aggregate_def personal_games_eq group_memberships_eq for_each_group_def
      group_loop_eq entries_of_def scan_ok_def fatal_error_of_def scanned_def)

lemma scanned_all:
  assumes "list_all well_formed groups"
  shows "scanned groups = filter developer_tier (present groups)"
proof -
  have "takeWhile well_formed groups = groups"
    using assms by (simp add: list_all_iff)
  then show ?thesis
    unfolding scanned_def by (rule arg_cong [where f = "\<lambda>xs. filter developer_tier (present xs)"])
qed

lemma present_append: "present (xs @ ys) = present xs @ present ys"
  by (induction xs rule: present.induct) auto

lemma length_scanned:
  "length (scanned groups) \<le> length (filter developer_tier (present groups))"
proof -
  have "present groups = present (takeWhile well_formed groups) @ present (dropWhile well_formed groups)"
    by (metis present_append takeWhile_dropWhile_id)
  then show ?thesis by (simp add: scanned_def)
qed

lemma set_present: "m \<in> set (present xs) \<longleftrightarrow> Some m \<in> set xs"
  by (induction xs rule: present.induct) auto


subsection \<open>The ways through the handler\<close>

lemma handler_options:
  "req_method req = ''OPTIONS'' \<Longrightarrow>
   handler v e req cache =
     \<lparr>response = end_res (status 200 (cors fresh_res)), cache_after = cache, upstream_calls = []\<rparr>"
  by (simp add: handler_def)

lemma handler_rejects:
  assumes "req_method req \<noteq> ''OPTIONS''"
    and "\<not> (\<exists>userId. query_userId req = Some userId \<and> test_numeric userId)"
  shows "\<exists>msg usage. handler v e req cache =
     \<lparr>response = json (ErrorBody msg usage) (status 400 (cors fresh_res)),
      cache_after = cache, upstream_calls = []\<rparr>"
  using assms by (auto simp: handler_def Let_def split: option.splits)

lemma handler_hit:
  assumes "req_method req \<noteq> ''OPTIONS''" and "query_userId req = Some userId"
    and "test_numeric userId" and "fresh e cache userId"
  shows "handler v e req cache =
     \<lparr>response = json (Summary (cached_data (the (map_get cache (''visits_'' @ userId)))))
                   (status 200 (cors fresh_res)),
      cache_after = cache, upstream_calls = []\<rparr>"
proof -
  have "userId \<noteq> []" using assms(3) by (auto simp: test_numeric_def)
  moreover have "status 200 (cors fresh_res) = cors fresh_res"
    by (simp add: status_def cors_def setHeader_def fresh_res_def)
  ultimately show ?thesis
    using assms
    by (cases v) (auto simp: handler_def fresh_def CACHE_DURATION_def Let_def split: option.splits)
qed

lemma handler_miss:
  assumes "req_method req \<noteq> ''OPTIONS''" and "query_userId req = Some userId"
    and "test_numeric userId" and "\<not> fresh e cache userId"
  shows "handler v e req cache =
     (case aggregate (fetchJSON v (fetch e)) userId of
        (calls, Inl error) \<Rightarrow>
          \<lparr>response = json (Failure False ''Failed to fetch visit data'' error userId)
                        (status 500 (cors fresh_res)),
           cache_after = cache, upstream_calls = calls\<rparr>
      | (calls, Inr counters) \<Rightarrow>
          \<lparr>response = json (Summary (make_result counters (now_result e)))
                        (status 200 (cors fresh_res)),
           cache_after =
             clean_old (map_set cache (''visits_'' @ userId)
               \<lparr>cached_data = make_result counters (now_result e),
                cached_timestamp = now_store e\<rparr>),
           upstream_calls = calls\<rparr>)"
proof -
  have "userId \<noteq> []" using assms(3) by (auto simp: test_numeric_def)
  moreover have "status 200 (cors fresh_res) = cors fresh_res"
    by (simp add: status_def cors_def setHeader_def fresh_res_def)
  ultimately show ?thesis
    using assms
    by (cases v)
      (auto simp: handler_def fresh_def CACHE_DURATION_def Let_def split: option.splits sum.splits prod.splits)
qed

lemma went_upstream:
  assumes "upstream_calls (handler v e req cache) \<noteq> []"
  obtains userId where "req_method req \<noteq> ''OPTIONS''" "query_userId req = Some userId"
    "test_numeric userId" "\<not> fresh e cache userId"
proof -
  have get: "req_method req \<noteq> ''OPTIONS''"
    using assms by (auto simp: handler_options)
  have "\<exists>userId. query_userId req = Some userId \<and> test_numeric userId"
  proof (rule ccontr)
    assume "\<not> ?thesis"
    from handler_rejects [OF get this, of v e cache] show False
      using assms by auto
  qed
  then obtain userId where u: "query_userId req = Some userId" "test_numeric userId"
    by blast
  have "\<not> fresh e cache userId"
    using assms by (auto simp: handler_hit [OF get u])
  with get u that show ?thesis by blast
qed

lemma scan_ok_scanned:
  assumes "scan_ok d"
  shows "scanned (entries_of d) = filter developer_tier (present (entries_of d))"
  using assms by (cases d) (simp_all add: scan_ok_def entries_of_def scanned_all)

lemma handler_ok:
  assumes "req_method req \<noteq> ''OPTIONS''" and "query_userId req = Some userId"
    and "test_numeric userId" and "\<not> fresh e cache userId"
    and "scan_ok (groups_of v (fetch e) userId)"
  shows "handler v e req cache =
     \<lparr>response =
        json (Summary (make_result
               (absorb (answer v (fetch e) (user_games_url userId)) (Fin 0, 0),
                group_total (answer v (fetch e))
                  (filter developer_tier (present (entries_of (groups_of v (fetch e) userId))))
                  (Fin 0, 0))
               (now_result e)))
          (status 200 (cors fresh_res)),
      cache_after =
        clean_old (map_set cache (''visits_'' @ userId)
          \<lparr>cached_data = make_result
               (absorb (answer v (fetch e) (user_games_url userId)) (Fin 0, 0),
                group_total (answer v (fetch e))
                  (filter developer_tier (present (entries_of (groups_of v (fetch e) userId))))
                  (Fin 0, 0))
               (now_result e),
           cached_timestamp = now_store e\<rparr>),
      upstream_calls =
        [user_games_url userId, user_groups_url userId] @
        map games_url_of
          (filter developer_tier (present (entries_of (groups_of v (fetch e) userId))))\<rparr>"
  using assms(5)
  by (simp add: handler_miss [OF assms(1-4)] aggregate_eq scan_ok_scanned)

lemma handler_fatal:
  assumes "req_method req \<noteq> ''OPTIONS''" and "query_userId req = Some userId"
    and "test_numeric userId" and "\<not> fresh e cache userId"
    and "\<not> scan_ok (groups_of v (fetch e) userId)"
  shows "handler v e req cache =
     \<lparr>response =
        json (Failure False ''Failed to fetch visit data''
               (fatal_error_of (groups_of v (fetch e) userId)) userId)
          (status 500 (cors fresh_res)),
      cache_after = cache,
      upstream_calls =
        [user_games_url userId, user_groups_url userId] @
        map games_url_of (scanned (entries_of (groups_of v (fetch e) userId)))\<rparr>"
  using assms(5)
  by (simp add: handler_miss [OF assms(1-4)] aggregate_eq)

lemma handler_miss_calls:
  assumes "req_method req \<noteq> ''OPTIONS''" and "query_userId req = Some userId"
    and "test_numeric userId" and "\<not> fresh e cache userId"
  shows "upstream_calls (handler v e req cache) =
           [user_games_url userId, user_groups_url userId] @
           map games_url_of (scanned (entries_of (groups_of v (fetch e) userId)))"
  by (simp add: handler_miss [OF assms] aggregate_eq)

lemma handler_miss_status:
  assumes "req_method req \<noteq> ''OPTIONS''" and "query_userId req = Some userId"
    and "test_numeric userId" and "\<not> fresh e cache userId"
  shows "statusCode (response (handler v e req cache)) =
           (if scan_ok (groups_of v (fetch e) userId) then 200 else 500)"
  by (simp add: handler_miss [OF assms] aggregate_eq json_def status_def)

lemma user_games_url_not_group: "user_games_url u \<noteq> group_games_url g"
  by (simp add: user_games_url_def group_games_url_def)

lemma user_groups_url_not_group: "user_groups_url u \<noteq> group_games_url g"
  by (simp add: user_groups_url_def group_games_url_def)

lemma user_games_url_not_groups: "user_games_url u \<noteq> user_groups_url u'"
  by (simp add: user_games_url_def user_groups_url_def)

lemma scanned_member:
  "m \<in> set (scanned groups) \<Longrightarrow> Some m \<in> set groups \<and> developer_tier m \<and> well_formed (Some m)"
  by (auto simp: scanned_def set_present dest: set_takeWhileD)

lemma scanned_url:
  "m \<in> set (scanned groups) \<Longrightarrow> \<exists>g. games_url_of m = group_games_url g"
  by (auto simp: games_url_of_def well_formed_def developer_tier_def
      dest!: scanned_member split: option.splits)

lemma map_set_new: "k \<notin> fst ` set m \<Longrightarrow> map_set m k x = m @ [(k, x)]"
  by (induction m) auto

lemma map_set_keys: "k \<in> fst ` set m \<Longrightarrow> map fst (map_set m k x) = map fst m"
  by (induction m) force+

lemma map_delete_first:
  "distinct (map fst ((k, x) # m)) \<Longrightarrow> map_delete ((k, x) # m) k = m"
proof -
  assume "distinct (map fst ((k, x) # m))"
  then have "k \<notin> fst ` set m" by simp
  then have "filter (\<lambda>(k', v'). k' \<noteq> k) m = m"
    by (induction m) auto
  then show ?thesis by (simp add: map_delete_def)
qed

subsection \<open>Further facts used by the claims\<close>

lemma full_cache_keys:
  "map fst full_cache = map (\<lambda>i. ''visits_'' @ replicate (Suc i) (CHR ''7'')) [0..<100]"
  by (simp add: full_cache_def comp_def)

lemma full_cache_distinct: "distinct (map fst full_cache)"
proof -
  have "inj_on (\<lambda>i. ''visits_'' @ replicate (Suc i) (CHR ''7'')) (set [0..<100])"
  proof (rule inj_onI)
    fix i j :: nat
    assume "''visits_'' @ replicate (Suc i) (CHR ''7'') = ''visits_'' @ replicate (Suc j) (CHR ''7'')"
    then have "length (replicate (Suc i) (CHR ''7'')) = length (replicate (Suc j) (CHR ''7''))"
      by simp
    then show "i = j" by simp
  qed
  then show ?thesis
    unfolding full_cache_keys by (simp add: distinct_map)
qed

lemma full_cache_size: "map_size full_cache = 100"
  by (simp add: map_size_def full_cache_def)

lemma full_cache_first: "full_cache = (''visits_7'', sample_entry) # tl full_cache"
proof -
  have "[0..<100] = 0 # [1..<100]"
    by (simp add: upt_conv_Cons)
  then show ?thesis
    by (simp add: full_cache_def)
qed

lemma full_cache_new: "''visits_1'' \<notin> fst ` set full_cache"
  by (auto simp: full_cache_def)

lemma full_cache_old: "''visits_7'' \<in> fst ` set full_cache"
proof -
  have "(''visits_7'', sample_entry) \<in> set full_cache"
    by (subst full_cache_first) simp
  then show ?thesis by force
qed

lemma answer_variants:
  assumes "f url (request_headers Visits) = f url (request_headers GetVisits)"
  shows "(\<exists>a b. answer Visits f url = Inl a \<and> answer GetVisits f url = Inl b)
       \<or> (\<exists>b. answer Visits f url = Inr b \<and> answer GetVisits f url = Inr b)"
  using assms
  by (cases "f url (request_headers GetVisits)")
    (auto simp: answer_def fetchJSON_def fetch_call_def split: option.splits)

lemma absorb_variants:
  assumes "\<forall>url. f url (request_headers Visits) = f url (request_headers GetVisits)"
  shows "absorb (answer Visits f url) = absorb (answer GetVisits f url)"
  using answer_variants [of f url] assms by (auto simp: absorb_def fun_eq_iff)

lemma groups_of_variants:
  assumes "\<forall>url. f url (request_headers Visits) = f url (request_headers GetVisits)"
  shows "groups_of Visits f u = groups_of GetVisits f u"
  using answer_variants [of f "user_groups_url u"] assms
  by (auto simp: groups_of_eq)

lemma aggregate_variants:
  assumes "\<forall>url. f url (request_headers Visits) = f url (request_headers GetVisits)"
  shows "aggregate (fetchJSON Visits f) u = aggregate (fetchJSON GetVisits f) u"
  by (simp add: aggregate_eq group_total_def absorb_variants [OF assms]
      groups_of_variants [OF assms])


section \<open>The claims\<close>







text \<open>
  C3. For a request that reaches the cache lookup (not a preflight, numeric userId):
  when the cache holds an entry for the user whose age, the lookup instant minus the
  instant it was stored, is strictly less than 300,000 ms, the handler answers 200 with
  exactly the stored summary (breakdown, totalVisits and timestamp as stored), fetches
  nothing and leaves the cache as it is; when the age is 300,000 ms or more the lookup
  misses and the aggregation runs, starting with the two fetches for the user.
\<close>

theorem cache_hit_within_five_minutes:
  assumes "req_method req \<noteq> ''OPTIONS''" and "query_userId req = Some userId"
    and "test_numeric userId"
    and "map_get cache (''visits_'' @ userId) = Some c"
  shows "(now_lookup e - cached_timestamp c < 300000 \<longrightarrow>
            upstream_calls (handler v e req cache) = []
          \<and> statusCode (response (handler v e req cache)) = 200
          \<and> sent (response (handler v e req cache)) = Some (Summary (cached_data c))
          \<and> cache_after (handler v e req cache) = cache)
       \<and> (now_lookup e - cached_timestamp c \<ge> 300000 \<longrightarrow>
            upstream_calls (handler v e req cache)
              = fst (aggregate (fetchJSON v (fetch e)) userId)
          \<and> take 2 (upstream_calls (handler v e req cache))
              = [user_games_url userId, user_groups_url userId])"
proof (intro conjI impI)
  assume age: "now_lookup e - cached_timestamp c < 300000"
  then have hit: "fresh e cache userId"
    using assms(4) by (simp add: fresh_def)
  note h = handler_hit [OF assms(1-3) hit, of v]
  show "upstream_calls (handler v e req cache) = []" by (simp add: h)
  show "statusCode (response (handler v e req cache)) = 200"
    by (simp add: h json_def status_def)
  show "sent (response (handler v e req cache)) = Some (Summary (cached_data c))"
    using assms(4) by (simp add: h json_def)
  show "cache_after (handler v e req cache) = cache" by (simp add: h)
next
  assume age: "300000 \<le> now_lookup e - cached_timestamp c"
  then have miss: "\<not> fresh e cache userId"
    using assms(4) by (simp add: fresh_def)
  note h = handler_miss [OF assms(1-3) miss, of v]
  show calls: "upstream_calls (handler v e req cache)
          = fst (aggregate (fetchJSON v (fetch e)) userId)"
    by (simp add: h split: prod.splits sum.splits)
  show "take 2 (upstream_calls (handler v e req cache))
          = [user_games_url userId, user_groups_url userId]"
    unfolding calls by (simp add: aggregate_eq Let_def)
qed

theorem cache_hit_within_five_minutes_witness:
  "req_method (get_request ''1'') \<noteq> ''OPTIONS''
   \<and> query_userId (get_request ''1'') = Some ''1''
   \<and> test_numeric ''1''
   \<and> map_get warm_cache (''visits_'' @ ''1'') = Some sample_entry
   \<and> now_lookup demo_env - cached_timestamp sample_entry < 300000
   \<and> upstream_calls (handler Visits demo_env (get_request ''1'') warm_cache) = []
   \<and> sent (response (handler Visits demo_env (get_request ''1'') warm_cache))
       = Some (Summary (cached_data sample_entry))
   \<and> timestamp (cached_data sample_entry) = 500
   \<and> now_lookup late_env - cached_timestamp sample_entry \<ge> 300000
   \<and> take 2 (upstream_calls (handler Visits late_env (get_request ''1'') warm_cache))
       = [user_games_url ''1'', user_groups_url ''1'']"
proof -
  have a: "req_method (get_request ''1'') \<noteq> ''OPTIONS''"
    by (simp add: get_request_def)
  have b: "query_userId (get_request ''1'') = Some ''1''"
    by (simp add: get_request_def)
  have c: "test_numeric ''1''"
    by (simp add: test_numeric_def isDigit_def)
  have d: "map_get warm_cache (''visits_'' @ ''1'') = Some sample_entry"
    by (simp add: map_get_def warm_cache_def)
  have young: "now_lookup demo_env - cached_timestamp sample_entry < 300000"
    by (simp add: demo_env_def sample_entry_def)
  have old: "now_lookup late_env - cached_timestamp sample_entry \<ge> 300000"
    by (simp add: late_env_def sample_entry_def)
  have t: "timestamp (cached_data sample_entry) = 500"
    by (simp add: sample_entry_def make_result_def)
  note hit = cache_hit_within_five_minutes [OF a b c d, of demo_env Visits, THEN conjunct1,
      rule_format, OF young]
  note miss = cache_hit_within_five_minutes [OF a b c d, of late_env Visits, THEN conjunct2,
      rule_format, OF old]
  from a b c d young old t hit miss show ?thesis by blast
qed

text \<open>
  C4. The cache is written only when an aggregation has succeeded, by a set followed by
  the clean-up. On a cache of at most 100 distinct keys (every cache the handler can
  build from the empty one): a new key as the 101st entry evicts exactly the first key of
  the insertion order and leaves 100 entries, the new one last; a new key below 100
  entries evicts nothing; overwriting a key that is present evicts nothing and keeps the
  order of the keys; the cache stays at distinct keys and at most 100 entries. An
  invocation that fetches nothing (a hit, a rejection, a preflight) leaves the cache and
  its order untouched, and any other invocation either leaves it untouched or performs
  that one write.
\<close>

theorem cache_eviction_fifo:
  assumes "distinct (map fst cache)" and "map_size cache \<le> 100"
  shows "(k \<notin> fst ` set cache \<and> map_size cache = 100 \<longrightarrow>
            clean_old (map_set cache k x) = tl cache @ [(k, x)]
          \<and> map_size (clean_old (map_set cache k x)) = 100
          \<and> fst (hd cache) \<notin> fst ` set (clean_old (map_set cache k x)))
       \<and> (k \<notin> fst ` set cache \<and> map_size cache < 100 \<longrightarrow>
            clean_old (map_set cache k x) = cache @ [(k, x)])
       \<and> (k \<in> fst ` set cache \<longrightarrow>
            clean_old (map_set cache k x) = map_set cache k x
          \<and> map fst (map_set cache k x) = map fst cache)
       \<and> distinct (map fst (clean_old (map_set cache k x)))
       \<and> map_size (clean_old (map_set cache k x)) \<le> 100
       \<and> (upstream_calls (handler v e req cache) = [] \<longrightarrow>
            cache_after (handler v e req cache) = cache)
       \<and> (cache_after (handler v e req cache) = cache
          \<or> (\<exists>userId y. query_userId req = Some userId
                \<and> cache_after (handler v e req cache)
                    = clean_old (map_set cache (''visits_'' @ userId) y)))"
proof -
  have full: "clean_old (map_set cache k x) = tl cache @ [(k, x)]
          \<and> map_size (clean_old (map_set cache k x)) = 100
          \<and> fst (hd cache) \<notin> fst ` set (clean_old (map_set cache k x))"
    if new: "k \<notin> fst ` set cache" and size: "map_size cache = 100"
  proof -
    from size obtain k0 x0 rest where c: "cache = (k0, x0) # rest"
      by (cases cache) (auto simp: map_size_def)
    have "map_set cache k x = cache @ [(k, x)]"
      using new by (rule map_set_new)
    then have set: "map_set cache k x = (k0, x0) # (rest @ [(k, x)])"
      unfolding c by simp
    have "distinct (map fst ((k0, x0) # (rest @ [(k, x)])))"
      using assms(1) new by (auto simp: c)
    then have del: "map_delete ((k0, x0) # (rest @ [(k, x)])) k0 = rest @ [(k, x)]"
      by (rule map_delete_first)
    have len: "length rest = 99"
      using size by (simp add: c map_size_def)
    have "clean_old ((k0, x0) # (rest @ [(k, x)])) = rest @ [(k, x)]"
      using len del by (simp add: clean_old_def map_size_def)
    then have res: "clean_old (map_set cache k x) = rest @ [(k, x)]"
      unfolding set .
    have "k0 \<notin> fst ` set (rest @ [(k, x)])"
      using assms(1) new by (auto simp: c)
    with res len show ?thesis
      by (simp add: c map_size_def)
  qed
  have below: "clean_old (map_set cache k x) = cache @ [(k, x)]"
    if new: "k \<notin> fst ` set cache" and size: "map_size cache < 100"
    using new size by (simp add: map_set_new clean_old_def map_size_def)
  have over: "clean_old (map_set cache k x) = map_set cache k x
          \<and> map fst (map_set cache k x) = map fst cache"
    if old: "k \<in> fst ` set cache"
  proof -
    have keys: "map fst (map_set cache k x) = map fst cache"
      using old by (rule map_set_keys)
    then have "length (map_set cache k x) = length cache"
      by (metis length_map)
    then show ?thesis
      using assms(2) keys by (simp add: clean_old_def map_size_def)
  qed
  have inv: "distinct (map fst (clean_old (map_set cache k x)))
       \<and> map_size (clean_old (map_set cache k x)) \<le> 100"
  proof (cases "k \<in> fst ` set cache")
    case True
    from over [OF True] assms show ?thesis
      by (metis length_map map_size_def)
  next
    case new: False
    show ?thesis
    proof (cases "map_size cache = 100")
      case True
      from full [OF new True] have r: "clean_old (map_set cache k x) = tl cache @ [(k, x)]"
        and s: "map_size (clean_old (map_set cache k x)) = 100"
        by blast+
      have "distinct (map fst (tl cache @ [(k, x)]))"
        using assms(1) new by (cases cache) auto
      with r s show ?thesis by simp
    next
      case False
      with assms(2) have lt: "map_size cache < 100" by simp
      from below [OF new lt] assms(1) new lt show ?thesis
        by (auto simp: map_size_def)
    qed
  qed
  have quiet: "cache_after (handler v e req cache) = cache"
    if none: "upstream_calls (handler v e req cache) = []"
  proof (cases "req_method req = ''OPTIONS''")
    case True
    then show ?thesis by (simp add: handler_options)
  next
    case get: False
    show ?thesis
    proof (cases "\<exists>userId. query_userId req = Some userId \<and> test_numeric userId")
      case False
      from handler_rejects [OF get False, of v e cache] show ?thesis by auto
    next
      case True
      then obtain userId where u: "query_userId req = Some userId" "test_numeric userId"
        by blast
      show ?thesis
      proof (cases "fresh e cache userId")
        case True
        then show ?thesis by (simp add: handler_hit [OF get u])
      next
        case False
        have "upstream_calls (handler v e req cache) \<noteq> []"
          by (cases "scan_ok (groups_of v (fetch e) userId)")
            (simp_all add: handler_ok [OF get u False] handler_fatal [OF get u False])
        with none show ?thesis by simp
      qed
    qed
  qed
  have written: "cache_after (handler v e req cache) = cache
          \<or> (\<exists>userId y. query_userId req = Some userId
                \<and> cache_after (handler v e req cache)
                    = clean_old (map_set cache (''visits_'' @ userId) y))"
  proof (cases "upstream_calls (handler v e req cache) = []")
    case True
    then show ?thesis using quiet by simp
  next
    case False
    then obtain userId where get: "req_method req \<noteq> ''OPTIONS''"
      and u: "query_userId req = Some userId" "test_numeric userId"
      and miss: "\<not> fresh e cache userId"
      by (rule went_upstream)
    show ?thesis
    proof (cases "scan_ok (groups_of v (fetch e) userId)")
      case True
      show ?thesis
        unfolding handler_ok [OF get u miss True] using u(1) by auto
    next
      case False
      then show ?thesis by (simp add: handler_fatal [OF get u miss])
    qed
  qed
  from full below over inv quiet written show ?thesis by blast
qed

theorem cache_eviction_fifo_witness:
  "distinct (map fst full_cache) \<and> map_size full_cache \<le> 100
   \<and> ''visits_1'' \<notin> fst ` set full_cache \<and> map_size full_cache = 100
   \<and> fst (hd full_cache) = ''visits_7''
   \<and> clean_old (map_set full_cache ''visits_1'' sample_entry)
       = tl full_cache @ [(''visits_1'', sample_entry)]
   \<and> map_size (clean_old (map_set full_cache ''visits_1'' sample_entry)) = 100
   \<and> ''visits_7'' \<notin> fst ` set (clean_old (map_set full_cache ''visits_1'' sample_entry))
   \<and> ''visits_7'' \<in> fst ` set full_cache
   \<and> clean_old (map_set full_cache ''visits_7'' sample_entry)
       = map_set full_cache ''visits_7'' sample_entry
   \<and> map fst (map_set full_cache ''visits_7'' sample_entry) = map fst full_cache
   \<and> distinct (map fst warm_cache) \<and> map_size warm_cache < 100
   \<and> ''visits_2'' \<notin> fst ` set warm_cache
   \<and> clean_old (map_set warm_cache ''visits_2'' sample_entry)
       = warm_cache @ [(''visits_2'', sample_entry)]
   \<and> upstream_calls (handler Visits demo_env (get_request ''1'') warm_cache) = []
   \<and> cache_after (handler Visits demo_env (get_request ''1'') warm_cache) = warm_cache"
proof -
  have le: "map_size full_cache \<le> 100"
    by (simp add: full_cache_size)
  have hd: "fst (hd full_cache) = ''visits_7''"
    by (subst full_cache_first) simp
  note t1 = cache_eviction_fifo [OF full_cache_distinct le, of "''visits_1'' " sample_entry
      Visits demo_env "get_request ''1''"]
  have new: "clean_old (map_set full_cache ''visits_1'' sample_entry)
               = tl full_cache @ [(''visits_1'', sample_entry)]
          \<and> map_size (clean_old (map_set full_cache ''visits_1'' sample_entry)) = 100
          \<and> fst (hd full_cache) \<notin> fst ` set (clean_old (map_set full_cache ''visits_1'' sample_entry))"
    using t1 full_cache_new full_cache_size by blast
  note t2 = cache_eviction_fifo [OF full_cache_distinct le, of "''visits_7'' " sample_entry
      Visits demo_env "get_request ''1''"]
  have old: "clean_old (map_set full_cache ''visits_7'' sample_entry)
               = map_set full_cache ''visits_7'' sample_entry
          \<and> map fst (map_set full_cache ''visits_7'' sample_entry) = map fst full_cache"
    using t2 full_cache_old by blast
  have wd: "distinct (map fst warm_cache)"
    by (simp add: warm_cache_def)
  have wle: "map_size warm_cache \<le> 100" and wlt: "map_size warm_cache < 100"
    by (simp_all add: warm_cache_def map_size_def)
  have wnew: "''visits_2'' \<notin> fst ` set warm_cache"
    by (simp add: warm_cache_def)
  note t3 = cache_eviction_fifo [OF wd wle, of "''visits_2'' " sample_entry
      Visits demo_env "get_request ''1''"]
  have below: "clean_old (map_set warm_cache ''visits_2'' sample_entry)
                 = warm_cache @ [(''visits_2'', sample_entry)]"
    using t3 wnew wlt by blast
  have none: "upstream_calls (handler Visits demo_env (get_request ''1'') warm_cache) = []"
    by (simp add: eval_defs)
  have quiet: "cache_after (handler Visits demo_env (get_request ''1'') warm_cache) = warm_cache"
    using t3 none by blast
  note n1 = new [THEN conjunct1] and n2 = new [THEN conjunct2, THEN conjunct1]
    and n3 = new [THEN conjunct2, THEN conjunct2, unfolded hd]
    and o1 = old [THEN conjunct1] and o2 = old [THEN conjunct2]
  from full_cache_distinct le full_cache_new full_cache_size hd n1 n2 n3 o1 o2 full_cache_old
    wd wlt wnew below none quiet
  show ?thesis by blast
qed

text \<open>
  C5 (as stated, fails for a preflight). A preflight request (OPTIONS) is answered 200
  before the userId is looked at, whatever the userId.
\<close>

theorem preflight_is_not_validated:
  "query_userId options_request = Some ''abc''
   \<and> \<not> test_numeric ''abc''
   \<and> statusCode (response (handler Visits demo_env options_request [])) = 200
   \<and> statusCode (response (handler GetVisits demo_env options_request [])) = 200"
  by (simp add: eval_defs)

text \<open>
  C5 (amended). For every request other than an OPTIONS preflight: when the userId
  parameter is missing or does not match \<^verbatim>\<open>^\d+$\<close> (it is empty or holds a character that
  is not a decimal digit), the handler answers 400 with an error body, fetches nothing
  and leaves the cache as it is; a userId of one or more decimal digits is never answered
  400. A preflight is answered 200 with no body, and it too fetches nothing and leaves
  the cache as it is.
\<close>

theorem invalid_userId_rejected:
  "(req_method req \<noteq> ''OPTIONS'' \<longrightarrow>
      (\<not> (\<exists>u. query_userId req = Some u \<and> u \<noteq> [] \<and> (\<forall>c \<in> set u. c \<in> set ''0123456789'')) \<longrightarrow>
         statusCode (response (handler v e req cache)) = 400
       \<and> (\<exists>msg usage. sent (response (handler v e req cache)) = Some (ErrorBody msg usage))
       \<and> upstream_calls (handler v e req cache) = []
       \<and> cache_after (handler v e req cache) = cache)
    \<and> ((\<exists>u. query_userId req = Some u \<and> u \<noteq> [] \<and> (\<forall>c \<in> set u. c \<in> set ''0123456789'')) \<longrightarrow>
         statusCode (response (handler v e req cache)) \<noteq> 400))
   \<and> (req_method req = ''OPTIONS'' \<longrightarrow>
         statusCode (response (handler v e req cache)) = 200
       \<and> sent (response (handler v e req cache)) = Some NoBody
       \<and> upstream_calls (handler v e req cache) = []
       \<and> cache_after (handler v e req cache) = cache)"
proof -
  have num: "test_numeric u \<longleftrightarrow> u \<noteq> [] \<and> (\<forall>c \<in> set u. c \<in> set ''0123456789'')" for u
    unfolding test_numeric_def isDigit_def list_all_iff ..
  have rejected:
    "statusCode (response (handler v e req cache)) = 400
       \<and> (\<exists>msg usage. sent (response (handler v e req cache)) = Some (ErrorBody msg usage))
       \<and> upstream_calls (handler v e req cache) = []
       \<and> cache_after (handler v e req cache) = cache"
    if get: "req_method req \<noteq> ''OPTIONS''"
      and bad: "\<not> (\<exists>u. query_userId req = Some u \<and> u \<noteq> [] \<and> (\<forall>c \<in> set u. c \<in> set ''0123456789''))"
  proof -
    from bad have "\<not> (\<exists>userId. query_userId req = Some userId \<and> test_numeric userId)"
      unfolding num .
    from handler_rejects [OF get this, of v e cache] show ?thesis
      by (auto simp: json_def status_def)
  qed
  have accepted: "statusCode (response (handler v e req cache)) \<noteq> 400"
    if get: "req_method req \<noteq> ''OPTIONS''"
      and good: "\<exists>u. query_userId req = Some u \<and> u \<noteq> [] \<and> (\<forall>c \<in> set u. c \<in> set ''0123456789'')"
  proof -
    from good obtain u where u: "query_userId req = Some u" "test_numeric u"
      unfolding num [symmetric] by blast
    show ?thesis
    proof (cases "fresh e cache u")
      case True
      then show ?thesis
        by (simp add: handler_hit [OF get u] json_def status_def)
    next
      case False
      then show ?thesis
        by (simp add: handler_miss [OF get u False] json_def status_def
            split: prod.splits sum.splits)
    qed
  qed
  have preflight: "statusCode (response (handler v e req cache)) = 200
       \<and> sent (response (handler v e req cache)) = Some NoBody
       \<and> upstream_calls (handler v e req cache) = []
       \<and> cache_after (handler v e req cache) = cache"
    if "req_method req = ''OPTIONS''"
    using that by (simp add: handler_options end_res_def status_def)
  from rejected accepted preflight show ?thesis by blast
qed

theorem invalid_userId_rejected_witness:
  "req_method (get_request ''abc'') \<noteq> ''OPTIONS''
   \<and> \<not> (\<exists>u. query_userId (get_request ''abc'') = Some u \<and> u \<noteq> []
            \<and> (\<forall>c \<in> set u. c \<in> set ''0123456789''))
   \<and> statusCode (response (handler Visits demo_env (get_request ''abc'') warm_cache)) = 400
   \<and> upstream_calls (handler Visits demo_env (get_request ''abc'') warm_cache) = []
   \<and> cache_after (handler Visits demo_env (get_request ''abc'') warm_cache) = warm_cache
   \<and> \<not> (\<exists>u. query_userId (get_request '''') = Some u \<and> u \<noteq> []
            \<and> (\<forall>c \<in> set u. c \<in> set ''0123456789''))
   \<and> statusCode (response (handler Visits demo_env (get_request '''') warm_cache)) = 400
   \<and> (\<exists>u. query_userId (get_request ''1'') = Some u \<and> u \<noteq> []
            \<and> (\<forall>c \<in> set u. c \<in> set ''0123456789''))
   \<and> statusCode (response (handler Visits demo_env (get_request ''1'') warm_cache)) \<noteq> 400
   \<and> req_method options_request = ''OPTIONS''
   \<and> sent (response (handler Visits demo_env options_request warm_cache)) = Some NoBody"
proof -
  have a: "req_method (get_request u) \<noteq> ''OPTIONS''" for u
    by (simp add: get_request_def)
  have b: "\<not> (\<exists>u. query_userId (get_request ''abc'') = Some u \<and> u \<noteq> []
            \<and> (\<forall>c \<in> set u. c \<in> set ''0123456789''))"
    by (simp add: get_request_def)
  have c: "\<not> (\<exists>u. query_userId (get_request '''') = Some u \<and> u \<noteq> []
            \<and> (\<forall>c \<in> set u. c \<in> set ''0123456789''))"
    by (simp add: get_request_def)
  have d: "\<exists>u. query_userId (get_request ''1'') = Some u \<and> u \<noteq> []
            \<and> (\<forall>c \<in> set u. c \<in> set ''0123456789'')"
    by (simp add: get_request_def)
  have o: "req_method options_request = ''OPTIONS''"
    by (simp add: options_request_def)
  note t1 = invalid_userId_rejected [of "get_request ''abc''" Visits demo_env warm_cache,
      THEN conjunct1, rule_format, OF a, THEN conjunct1, rule_format, OF b]
  note t2 = invalid_userId_rejected [of "get_request ''''" Visits demo_env warm_cache,
      THEN conjunct1, rule_format, OF a, THEN conjunct1, rule_format, OF c]
  note t3 = invalid_userId_rejected [of "get_request ''1''" Visits demo_env warm_cache,
      THEN conjunct1, rule_format, OF a, THEN conjunct2, rule_format, OF d]
  note t4 = invalid_userId_rejected [of options_request Visits demo_env warm_cache,
      THEN conjunct2, rule_format, OF o]
  from a b c d o t1 t2 t3 t4 show ?thesis by blast
qed

text \<open>
  C6. A role is classified as developer-tier if and only if its name, lowercased,
  contains one of developer, builder, scripter, programmer, lead developer, co-owner,
  owner, dev, game developer, lead scripter, head developer; "Co-Owner" and
  "LEAD SCRIPTER" are developer-tier, "Moderator" is not; a membership whose role does
  not match is passed over without a fetch, and every group-games URL that the handler
  fetches belongs to a developer-tier membership.
\<close>

theorem developer_role_classification:
  assumes "query_userId req = Some userId"
  shows "(isDeveloperRole roleName \<longleftrightarrow>
           (\<exists>w \<in> set [''developer'', ''builder'', ''scripter'', ''programmer'',
                       ''lead developer'', ''co-owner'', ''owner'', ''dev'',
                       ''game developer'', ''lead scripter'', ''head developer''].
              \<exists>p q. toLowerCase roleName = p @ w @ q))
       \<and> isDeveloperRole ''Co-Owner'' \<and> isDeveloperRole ''LEAD SCRIPTER''
       \<and> \<not> isDeveloperRole ''Moderator''
       \<and> (role m = Some (Role (Some n)) \<and> \<not> isDeveloperRole n \<longrightarrow>
            group_loop fj (Some m # groups) counters calls = group_loop fj groups counters calls)
       \<and> (\<forall>url \<in> set (drop 2 (upstream_calls (handler v e req cache))).
            \<exists>g \<in> set (present (entries_of (groups_of v (fetch e) userId))).
              developer_tier g \<and> url = games_url_of g)"
proof -
  have vocabulary: "isDeveloperRole roleName \<longleftrightarrow>
           (\<exists>w \<in> set [''developer'', ''builder'', ''scripter'', ''programmer'',
                       ''lead developer'', ''co-owner'', ''owner'', ''dev'',
                       ''game developer'', ''lead scripter'', ''head developer''].
              \<exists>p q. toLowerCase roleName = p @ w @ q)"
    unfolding isDeveloperRole_def DEVELOPER_ROLES_def Let_def list_ex_iff includes_str_iff ..
  have examples: "isDeveloperRole ''Co-Owner''" "isDeveloperRole ''LEAD SCRIPTER''"
    "\<not> isDeveloperRole ''Moderator''"
    by (simp_all add: isDeveloperRole_def toLowerCase_def toLowerCase_char_def
        DEVELOPER_ROLES_def)
  have skip: "role m = Some (Role (Some n)) \<and> \<not> isDeveloperRole n \<longrightarrow>
            group_loop fj (Some m # groups) counters calls = group_loop fj groups counters calls"
    by simp
  have fetched: "\<exists>g \<in> set (present (entries_of (groups_of v (fetch e) userId))).
              developer_tier g \<and> url = games_url_of g"
    if url: "url \<in> set (drop 2 (upstream_calls (handler v e req cache)))" for url
  proof -
    have get: "req_method req \<noteq> ''OPTIONS''"
      using url by (auto simp: handler_options)
    have num: "test_numeric userId"
    proof (rule ccontr)
      assume "\<not> test_numeric userId"
      then have "\<not> (\<exists>u. query_userId req = Some u \<and> test_numeric u)"
        using assms by simp
      from handler_rejects [OF get this, of v e cache] show False
        using url by auto
    qed
    have miss: "\<not> fresh e cache userId"
      using url by (auto simp: handler_hit [OF get assms num])
    have "url \<in> set (map games_url_of
                 (scanned (entries_of (groups_of v (fetch e) userId))))"
      using url by (simp add: handler_miss_calls [OF get assms num miss])
    then obtain m where m: "m \<in> set (scanned (entries_of (groups_of v (fetch e) userId)))"
      and eq: "url = games_url_of m"
      by auto
    from scanned_member [OF m] have "m \<in> set (present (entries_of (groups_of v (fetch e) userId)))"
      and "developer_tier m"
      by (simp_all add: set_present)
    with eq show ?thesis by blast
  qed
  from vocabulary examples skip fetched show ?thesis by blast
qed

theorem developer_role_classification_witness:
  "query_userId (get_request ''1'') = Some ''1''
   \<and> role (membership ''Moderator'' ''11'') = Some (Role (Some ''Moderator''))
   \<and> \<not> isDeveloperRole ''Moderator''
   \<and> group_loop (fetchJSON Visits demo_fetch)
         [Some (membership ''Moderator'' ''11''), Some (membership ''Co-Owner'' ''10'')] (Fin 0, 0) []
       = group_loop (fetchJSON Visits demo_fetch) [Some (membership ''Co-Owner'' ''10'')] (Fin 0, 0) []
   \<and> drop 2 (upstream_calls (handler Visits demo_env (get_request ''1'') []))
       = [group_games_url ''10'', group_games_url ''12'']
   \<and> (\<exists>g \<in> set (present (entries_of (groups_of Visits (fetch demo_env) ''1''))).
          developer_tier g \<and> group_games_url ''10'' = games_url_of g)
   \<and> (\<exists>g \<in> set (present (entries_of (groups_of Visits (fetch demo_env) ''1''))).
          developer_tier g \<and> group_games_url ''12'' = games_url_of g)"
proof -
  have a: "query_userId (get_request ''1'') = Some ''1''"
    by (simp add: get_request_def)
  have b: "role (membership ''Moderator'' ''11'') = Some (Role (Some ''Moderator''))"
    by (simp add: membership_def)
  have c: "drop 2 (upstream_calls (handler Visits demo_env (get_request ''1'') []))
             = [group_games_url ''10'', group_games_url ''12'']"
    by (simp add: eval_defs)
  note t = developer_role_classification [OF a, of "''Moderator''"
      "membership ''Moderator'' ''11''" "''Moderator''" "fetchJSON Visits demo_fetch"
      "[Some (membership ''Co-Owner'' ''10'')]" "(Fin 0, 0)" "[]" Visits demo_env "[]"]
  note t4 = t [THEN conjunct2, THEN conjunct2, THEN conjunct2]
  have d: "\<not> isDeveloperRole ''Moderator''"
    using t4 by (rule conjunct1)
  have e: "group_loop (fetchJSON Visits demo_fetch)
         [Some (membership ''Moderator'' ''11''), Some (membership ''Co-Owner'' ''10'')] (Fin 0, 0) []
       = group_loop (fetchJSON Visits demo_fetch) [Some (membership ''Co-Owner'' ''10'')] (Fin 0, 0) []"
    using t4 [THEN conjunct2, THEN conjunct1] b d by blast
  have f: "\<forall>url \<in> set [group_games_url ''10'', group_games_url ''12''].
        \<exists>g \<in> set (present (entries_of (groups_of Visits (fetch demo_env) ''1''))).
          developer_tier g \<and> url = games_url_of g"
    using t4 [THEN conjunct2, THEN conjunct2] unfolding c .
  have f1: "\<exists>g \<in> set (present (entries_of (groups_of Visits (fetch demo_env) ''1''))).
          developer_tier g \<and> group_games_url ''10'' = games_url_of g"
    using f by simp
  have f2: "\<exists>g \<in> set (present (entries_of (groups_of Visits (fetch demo_env) ''1''))).
          developer_tier g \<and> group_games_url ''12'' = games_url_of g"
    using f by simp
  from a b c d e f1 f2 show ?thesis by blast
qed




text \<open>
  C8. Every fetch records its URL in the trace, once. In an invocation that runs the
  aggregation, the URLs fetched are, in this order: the user's games, once; the user's
  memberships, once; then one group-games URL for each developer-tier membership met
  before the loop ends, whether or not the fetch succeeds, and nothing else. With G
  developer-tier memberships that is at most 1 + 1 + G fetches, and exactly 1 + 1 + G,
  one per developer-tier membership, when the answer is 200.
\<close>

theorem upstream_calls_once_each:
  assumes "upstream_calls (handler v e req cache) \<noteq> []"
    and "query_userId req = Some userId"
  shows "(let groups = entries_of (groups_of v (fetch e) userId);
              calls = upstream_calls (handler v e req cache);
              G = length (filter developer_tier (present groups))
          in (\<forall>url before. fst (fetchJSON v (fetch e) url before) = before @ [url])
           \<and> calls = fst (aggregate (fetchJSON v (fetch e)) userId)
           \<and> take 2 calls = [user_games_url userId, user_groups_url userId]
           \<and> count_list calls (user_games_url userId) = 1
           \<and> count_list calls (user_groups_url userId) = 1
           \<and> drop 2 calls
               = map games_url_of (filter developer_tier (present (takeWhile well_formed groups)))
           \<and> length (drop 2 calls) \<le> G
           \<and> length calls \<le> 1 + 1 + G
           \<and> (statusCode (response (handler v e req cache)) = 200 \<longrightarrow>
                 drop 2 calls = map games_url_of (filter developer_tier (present groups))
               \<and> length calls = 1 + 1 + G))"
proof -
  let ?groups = "entries_of (groups_of v (fetch e) userId)"
  let ?calls = "upstream_calls (handler v e req cache)"
  from assms(1) obtain u where get: "req_method req \<noteq> ''OPTIONS''"
    and u: "query_userId req = Some u" "test_numeric u"
    and miss: "\<not> fresh e cache u"
    by (rule went_upstream)
  from u(1) assms(2) have [simp]: "u = userId" by simp
  have rec: "\<forall>url before. fst (fetchJSON v (fetch e) url before) = before @ [url]"
    by (simp add: fetchJSON_eq)
  have calls: "?calls = [user_games_url userId, user_groups_url userId] @
                 map games_url_of (scanned ?groups)"
    using handler_miss_calls [OF get u miss, of v] by simp
  have agg: "?calls = fst (aggregate (fetchJSON v (fetch e)) userId)"
    by (simp add: calls aggregate_eq)
  have no_games: "user_games_url userId \<notin> set (map games_url_of (scanned ?groups))"
    using scanned_url [of _ ?groups] user_games_url_not_group by fastforce
  have no_groups: "user_groups_url userId \<notin> set (map games_url_of (scanned ?groups))"
    using scanned_url [of _ ?groups] user_groups_url_not_group by fastforce
  have c1: "count_list ?calls (user_games_url userId) = 1"
    using no_games user_games_url_not_groups [of userId userId]
    by (simp add: calls count_list_0_iff [THEN iffD2])
  have c2: "count_list ?calls (user_groups_url userId) = 1"
    using no_groups user_games_url_not_groups [of userId userId]
    by (simp add: calls count_list_0_iff [THEN iffD2])
  have d: "drop 2 ?calls
             = map games_url_of (filter developer_tier (present (takeWhile well_formed ?groups)))"
    by (simp add: calls scanned_def)
  have l: "length (drop 2 ?calls) \<le> length (filter developer_tier (present ?groups))"
    using length_scanned [of ?groups] by (simp add: calls)
  have l2: "length ?calls \<le> 1 + 1 + length (filter developer_tier (present ?groups))"
    using length_scanned [of ?groups] by (simp add: calls)
  have ok: "drop 2 ?calls = map games_url_of (filter developer_tier (present ?groups))
          \<and> length ?calls = 1 + 1 + length (filter developer_tier (present ?groups))"
    if "statusCode (response (handler v e req cache)) = 200"
  proof -
    have "scan_ok (groups_of v (fetch e) userId)"
      using that handler_miss_status [OF get u miss, of v] by (simp split: if_splits)
    then have "scanned ?groups = filter developer_tier (present ?groups)"
      by (rule scan_ok_scanned)
    then show ?thesis by (simp add: calls)
  qed
  have t: "take 2 ?calls = [user_games_url userId, user_groups_url userId]"
    by (simp add: calls)
  from rec agg t c1 c2 d l l2 ok show ?thesis
    unfolding Let_def by blast
qed

theorem upstream_calls_once_each_witness:
  "upstream_calls (handler Visits demo_env (get_request ''1'') []) \<noteq> []
   \<and> query_userId (get_request ''1'') = Some ''1''
   \<and> statusCode (response (handler Visits demo_env (get_request ''1'') [])) = 200
   \<and> length (filter developer_tier (present (entries_of (groups_of Visits (fetch demo_env) ''1'')))) = 2
   \<and> upstream_calls (handler Visits demo_env (get_request ''1'') [])
       = [user_games_url ''1'', user_groups_url ''1'', group_games_url ''10'',
          group_games_url ''12'']
   \<and> count_list (upstream_calls (handler Visits demo_env (get_request ''1'') []))
        (user_games_url ''1'') = 1
   \<and> length (upstream_calls (handler Visits demo_env (get_request ''1'') [])) = 1 + 1 + 2"
proof -
  have a: "upstream_calls (handler Visits demo_env (get_request ''1'') []) \<noteq> []"
    by (simp add: eval_defs)
  have b: "query_userId (get_request ''1'') = Some ''1''"
    by (simp add: get_request_def)
  have c: "statusCode (response (handler Visits demo_env (get_request ''1'') [])) = 200"
    by (simp add: eval_defs)
  have g: "length (filter developer_tier
             (present (entries_of (groups_of Visits (fetch demo_env) ''1'')))) = 2"
    by (simp add: groups_of_def entries_of_def eval_defs developer_tier_def)
  have calls: "upstream_calls (handler Visits demo_env (get_request ''1'') [])
       = [user_games_url ''1'', user_groups_url ''1'', group_games_url ''10'',
          group_games_url ''12'']"
    by (simp add: eval_defs)
  note t = upstream_calls_once_each [OF a b, unfolded Let_def]
  have n: "count_list (upstream_calls (handler Visits demo_env (get_request ''1'') []))
        (user_games_url ''1'') = 1"
    using t by blast
  have "length (upstream_calls (handler Visits demo_env (get_request ''1'') []))
          = 1 + 1 + length (filter developer_tier
                (present (entries_of (groups_of Visits (fetch demo_env) ''1''))))"
    using t c by blast
  then have l: "length (upstream_calls (handler Visits demo_env (get_request ''1'') [])) = 1 + 1 + 2"
    unfolding g .
  from a b c g calls n l show ?thesis by blast
qed

text \<open>
  C9. When the handler answers 500 (an error escaped the tolerated branches), the cache
  is left exactly as it was: nothing is stored or overwritten for the user. A later
  request for the same user (any upstream, a lookup instant that is not earlier) against
  that cache is therefore not answered from the cache: it runs the aggregation again,
  starting with the two fetches for the user.
\<close>

theorem fatal_failure_not_cached:
  assumes "statusCode (response (handler v e req cache)) = 500"
  shows "cache_after (handler v e req cache) = cache
       \<and> (\<exists>userId. query_userId req = Some userId
            \<and> (\<forall>e' v'. now_lookup e \<le> now_lookup e' \<longrightarrow>
                 take 2 (upstream_calls (handler v' e' req (cache_after (handler v e req cache))))
                   = [user_games_url userId, user_groups_url userId]))"
proof -
  have "upstream_calls (handler v e req cache) \<noteq> []"
  proof (cases "req_method req = ''OPTIONS''")
    case True
    then show ?thesis
      using assms by (simp add: handler_options end_res_def status_def)
  next
    case get: False
    show ?thesis
    proof (cases "\<exists>userId. query_userId req = Some userId \<and> test_numeric userId")
      case False
      from handler_rejects [OF get False, of v e cache] show ?thesis
        using assms by (auto simp: json_def status_def)
    next
      case True
      then obtain userId where u: "query_userId req = Some userId" "test_numeric userId"
        by blast
      have "\<not> fresh e cache userId"
        using assms by (auto simp: handler_hit [OF get u] json_def status_def)
      then show ?thesis
        by (simp add: handler_miss [OF get u] aggregate_eq Let_def)
    qed
  qed
  then obtain userId where get: "req_method req \<noteq> ''OPTIONS''"
    and u: "query_userId req = Some userId" "test_numeric userId"
    and miss: "\<not> fresh e cache userId"
    by (rule went_upstream)
  have unchanged: "cache_after (handler v e req cache) = cache"
  proof (cases "scan_ok (groups_of v (fetch e) userId)")
    case True
    then show ?thesis
      using assms by (simp add: handler_ok [OF get u miss] json_def status_def)
  next
    case False
    then show ?thesis
      by (simp add: handler_fatal [OF get u miss])
  qed
  have again: "take 2 (upstream_calls (handler v' e' req cache))
                 = [user_games_url userId, user_groups_url userId]"
    if later: "now_lookup e \<le> now_lookup e'" for e' v'
  proof -
    have "\<not> fresh e' cache userId"
      using miss later by (auto simp: fresh_def split: option.splits)
    then show ?thesis
      by (simp add: handler_miss [OF get u] aggregate_eq Let_def)
  qed
  from unchanged again u show ?thesis by simp
qed

theorem fatal_failure_not_cached_witness:
  "statusCode (response (handler Visits broken_env (get_request ''1'') warm_cache)) = 500
   \<and> now_lookup broken_env \<le> now_lookup late_env
   \<and> cache_after (handler Visits broken_env (get_request ''1'') warm_cache) = warm_cache
   \<and> (\<exists>userId. query_userId (get_request ''1'') = Some userId
        \<and> take 2 (upstream_calls (handler Visits late_env (get_request ''1'')
                     (cache_after (handler Visits broken_env (get_request ''1'') warm_cache))))
            = [user_games_url userId, user_groups_url userId])"
proof -
  have a: "statusCode (response (handler Visits broken_env (get_request ''1'') warm_cache)) = 500"
    by (simp add: eval_defs)
  have b: "now_lookup broken_env \<le> now_lookup late_env"
    by (simp add: broken_env_def late_env_def)
  note t = fatal_failure_not_cached [OF a]
  from t b have "\<exists>userId. query_userId (get_request ''1'') = Some userId
        \<and> take 2 (upstream_calls (handler Visits late_env (get_request ''1'')
                     (cache_after (handler Visits broken_env (get_request ''1'') warm_cache))))
            = [user_games_url userId, user_groups_url userId]"
    by blast
  with a b t show ?thesis by blast
qed

text \<open>
  C10 (as stated, fails). The copy in \<^verbatim>\<open>visits.js\<close> sends a browser User-Agent header
  with every fetch, the copy in \<^verbatim>\<open>get-visits.js\<close> sends none. Against an upstream that
  refuses a request without headers, the first reports the visits and the second
  reports zero, for the same request and the same (empty) cache.
\<close>

theorem variants_differ_on_header_sensitive_upstream:
  "sent (response (handler Visits ua_env (get_request ''1'') []))
     = Some (Summary (make_result ((Fin 12, 3), (Fin 100, 2)) 2000))
   \<and> sent (response (handler GetVisits ua_env (get_request ''1'') []))
     = Some (Summary (make_result ((Fin 0, 0), (Fin 0, 0)) 2000))
   \<and> totalVisits (make_result ((Fin 12, 3), (Fin 100, 2)) 2000) = Fin 112
   \<and> totalVisits (make_result ((Fin 0, 0), (Fin 0, 0)) 2000) = Fin 0"
  by (simp add: eval_defs)

text \<open>
  C10 (amended). For every request, cache state and environment whose upstream answers
  a fetch the same with and without the User-Agent header of \<^verbatim>\<open>visits.js\<close>, the two
  copies of the handler produce the same status code and the same response body (and
  the same headers, cache and fetches).
\<close>

theorem variants_agree_when_headers_ignored:
  assumes "\<forall>url. fetch e url (request_headers Visits) = fetch e url (request_headers GetVisits)"
  shows "statusCode (response (handler Visits e req cache))
           = statusCode (response (handler GetVisits e req cache))
       \<and> sent (response (handler Visits e req cache))
           = sent (response (handler GetVisits e req cache))
       \<and> handler Visits e req cache = handler GetVisits e req cache"
proof -
  have "handler Visits e req cache = handler GetVisits e req cache"
  proof (cases "req_method req = ''OPTIONS''")
    case True
    then show ?thesis by (simp add: handler_options)
  next
    case get: False
    show ?thesis
    proof (cases "\<exists>userId. query_userId req = Some userId \<and> test_numeric userId")
      case False
      then show ?thesis
        using get by (auto simp: handler_def Let_def split: option.splits)
    next
      case True
      then obtain userId where u: "query_userId req = Some userId" "test_numeric userId"
        by blast
      show ?thesis
      proof (cases "fresh e cache userId")
        case True
        then show ?thesis by (simp add: handler_hit [OF get u])
      next
        case False
        then show ?thesis
          by (simp add: handler_miss [OF get u False] aggregate_variants [OF assms])
      qed
    qed
  qed
  then show ?thesis by simp
qed

theorem variants_agree_when_headers_ignored_witness:
  "(\<forall>url. fetch demo_env url (request_headers Visits)
            = fetch demo_env url (request_headers GetVisits))
   \<and> statusCode (response (handler Visits demo_env (get_request ''1'') [])) = 200
   \<and> statusCode (response (handler GetVisits demo_env (get_request ''1'') [])) = 200
   \<and> sent (response (handler Visits demo_env (get_request ''1'') []))
       = sent (response (handler GetVisits demo_env (get_request ''1'') []))
   \<and> handler Visits demo_env (get_request ''1'') []
       = handler GetVisits demo_env (get_request ''1'') []"
proof -
  have a: "\<forall>url. fetch demo_env url (request_headers Visits)
            = fetch demo_env url (request_headers GetVisits)"
    by (simp add: demo_env_def demo_fetch_def)
  have s: "statusCode (response (handler Visits demo_env (get_request ''1'') [])) = 200"
    by (simp add: eval_defs)
  note t = variants_agree_when_headers_ignored [OF a, of "get_request ''1''" "[]"]
  from t s have s': "statusCode (response (handler GetVisits demo_env (get_request ''1'') [])) = 200"
    by simp
  from a s s' t show ?thesis by blast
qed

end
